theory Spec2Isabelle
  imports Main "HOL-Library.Sublist"
begin

section \<open>Component documentation parser (pcweb/pages/docs/component.py)\<close>

text \<open>
  The module scans the source text of a component class line by line, pairs the comment
  lines above a field with the field, and returns one \<open>Prop\<close> record per documented field.
  A character is a code point below 256; the string primitives of Python are written out
  for that range.
\<close>

subsection \<open>String primitives of Python\<close>

text \<open>\<open>str.isspace\<close> on one code point below 256, the set \<open>str.strip()\<close> removes.\<close>

definition isspace :: "char \<Rightarrow> bool" where
  "isspace c =
     (let n = (of_char c :: nat)
      in (9 \<le> n \<and> n \<le> 13) \<or> (28 \<le> n \<and> n \<le> 32) \<or> n = 133 \<or> n = 160)"

text \<open>The line boundaries of \<open>str.splitlines\<close> below 256 (CR LF counts once, see below).\<close>

definition is_linebreak :: "char \<Rightarrow> bool" where
  "is_linebreak c =
     (let n = (of_char c :: nat)
      in (10 \<le> n \<and> n \<le> 13) \<or> (28 \<le> n \<and> n \<le> 30) \<or> n = 133)"

text \<open>The class \<open>\w\<close> of the \<open>re\<close> module on a \<open>str\<close> pattern, below 256.\<close>

definition is_word :: "char \<Rightarrow> bool" where
  "is_word c =
     (let n = (of_char c :: nat)
      in (48 \<le> n \<and> n \<le> 57) \<or> (65 \<le> n \<and> n \<le> 90) \<or> n = 95 \<or> (97 \<le> n \<and> n \<le> 122)
         \<or> n = 170 \<or> n = 178 \<or> n = 179 \<or> n = 181 \<or> n = 185 \<or> n = 186
         \<or> (188 \<le> n \<and> n \<le> 190) \<or> (192 \<le> n \<and> n \<le> 214) \<or> (216 \<le> n \<and> n \<le> 246)
         \<or> (248 \<le> n \<and> n \<le> 255))"

text \<open>\<open>s.strip()\<close> and \<open>s.strip(chars)\<close>: drop from both ends while the character is in the set.\<close>

definition strip_where :: "(char \<Rightarrow> bool) \<Rightarrow> string \<Rightarrow> string" where
  "strip_where P s = rev (dropWhile P (rev (dropWhile P s)))"

definition strip :: "string \<Rightarrow> string" where
  "strip s = strip_where isspace s"

definition strip_chars :: "string \<Rightarrow> string \<Rightarrow> string" where
  "strip_chars chars s = strip_where (\<lambda>c. c \<in> set chars) s"

definition startswith :: "string \<Rightarrow> string \<Rightarrow> bool" where
  "startswith s pre = (take (length pre) s = pre)"

text \<open>
  \<open>str.splitlines()\<close>: the text is cut at every line boundary, CR directly followed by LF
  is one boundary, and a text that ends with a boundary has no empty last line. \<open>cur\<close> is
  the line read so far.
\<close>

fun splitlines_from :: "string \<Rightarrow> string \<Rightarrow> string list" where
  "splitlines_from cur [] = (if cur = [] then [] else [cur])"
| "splitlines_from cur [c] = (if is_linebreak c then [cur] else [cur @ [c]])"
| "splitlines_from cur (c # d # cs) =
     (if c = CHR 0x0D \<and> d = CHR 0x0A then cur # splitlines_from [] cs
      else if is_linebreak c then cur # splitlines_from [] (d # cs)
      else splitlines_from (cur @ [c]) (d # cs))"

definition splitlines :: "string \<Rightarrow> string list" where
  "splitlines s = splitlines_from [] s"

text \<open>
  \<open>re.search(pat, line)\<close> for a pattern of literal characters, read as a truth value:
  the pattern occurs somewhere in the line.
\<close>

fun re_search_literal :: "string \<Rightarrow> string \<Rightarrow> bool" where
  "re_search_literal pat [] = (pat = [])"
| "re_search_literal pat (c # cs) = (startswith (c # cs) pat \<or> re_search_literal pat cs)"

text \<open>
  \<open>re.search("\w+:", line)\<close>. The matcher tries the start positions from the left. At one
  position the greedy \<open>\w+\<close> takes the whole run of word characters and needs a colon
  next; giving characters back cannot help, since a shorter run is followed by a word
  character. The result is \<open>group(0)\<close> of the match.
\<close>

definition re_match_word_colon :: "string \<Rightarrow> string option" where
  "re_match_word_colon s =
     (let w = takeWhile is_word s; r = dropWhile is_word s
      in if w \<noteq> [] \<and> startswith r '':'' then Some (w @ '':'') else None)"

fun re_search_word_colon :: "string \<Rightarrow> string option" where
  "re_search_word_colon [] = None"
| "re_search_word_colon (c # cs) =
     (case re_match_word_colon (c # cs) of
        Some m \<Rightarrow> Some m
      | None \<Rightarrow> re_search_word_colon cs)"

subsection \<open>Errors and list indexing\<close>

datatype error = AssertionError string | KeyError string | IndexError

text \<open>\<open>xs[i]\<close> of Python: a negative index counts from the end, out of range raises.\<close>

definition getitem :: "'a list \<Rightarrow> int \<Rightarrow> error + 'a" where
  "getitem xs i =
     (let len = int (length xs); k = (if i < 0 then i + len else i)
      in if k < 0 \<or> len \<le> k then Inl IndexError else Inr (xs ! nat k))"

subsection \<open>The framework's classes, as the module observes them\<close>

text \<open>
  A type object, as far as \<open>prop_docs\<close> looks at it: whether
  \<open>rx.utils.types._issubclass(t, rx.Var)\<close> holds, \<open>rx.utils.types.get_args(t)\<close>, and
  \<open>t.__name__\<close> (\<open>None\<close> when the attribute is missing).
\<close>

datatype type_obj =
  TypeObj (issubclass_Var: bool) (get_args: "type_obj list") (dunder_name: "string option")

text \<open>
  A class is known by its identity. The class table gives what the module reads from a
  class: \<open>inspect.getsource\<close>, the classmethods \<open>get_props()\<close> and \<open>get_fields()\<close> (each
  field with its \<open>outer_type_\<close>), \<open>__bases__[0]\<close> and \<open>__doc__\<close>. The framework is not part
  of the module, so the table is a parameter. Reading a class is taken to succeed: a class
  whose source text is not available, or that the constructor of \<open>Source\<close> refuses, is
  outside the table.
\<close>

type_synonym cname = string

record component_class =
  getsource :: string
  component_get_props :: "string set"
  component_get_fields :: "string \<rightharpoonup> type_obj"
  bases0 :: cname
  doc :: "string option"

type_synonym class_table = "cname \<Rightarrow> component_class"

definition rx_Component :: cname where
  "rx_Component = ''rx.Component''"

subsection \<open>Prop and Source\<close>

text \<open>The field \<open>type_\<close> of \<open>Prop\<close> is \<open>prop_type\<close>: a name cannot end with an underscore.\<close>

record Prop =
  name :: string
  prop_type :: type_obj
  description :: string

record Source =
  component :: cname
  code :: "string list"

text \<open>\<open>Source.__init__\<close>: the non-empty lines of the class's source.\<close>

definition Source_init :: "class_table \<Rightarrow> cname \<Rightarrow> Source" where
  "Source_init ct c =
     \<lparr>component = c,
      code = filter (\<lambda>line. length line > 0) (splitlines (getsource (ct c)))\<rparr>"

text \<open>
  A method is a function from the object to its result and the object afterwards; a raised
  exception is \<open>Inl\<close>.
\<close>

definition get_docs :: "class_table \<Rightarrow> Source \<Rightarrow> string option \<times> Source" where
  "get_docs ct self = (doc (ct (component self)), self)"

definition get_comment :: "string list \<Rightarrow> string" where
  "get_comment comments = concat (map (\<lambda>comment. strip_chars ''#'' (strip comment)) comments)"

text \<open>
  The variables of the loop of \<open>_get_props\<close>, and how one pass through its body ends. The
  \<open>assert\<close> statement is taken to be enabled.
\<close>

record loop_state =
  self :: Source
  out :: "Prop list"
  comments :: "string list"

datatype ctl = Continue loop_state | Break loop_state | Raise error loop_state

definition loop_body :: "class_table \<Rightarrow> string set \<Rightarrow> nat \<Rightarrow> string \<Rightarrow> loop_state \<Rightarrow> ctl" where
  "loop_body ct props i line st =
     (if re_search_literal ''def '' line then Break st
      else if startswith (strip line) ''#'' then Continue (st\<lparr>comments := comments st @ [line]\<rparr>)
      else case re_search_word_colon line of
        None \<Rightarrow> Continue st
      | Some m \<Rightarrow>
         (let prop = strip_chars '':'' m in
          if prop \<notin> props then Continue st
          else case getitem (code (self st)) (int i - 1) of
            Inl e \<Rightarrow> Raise e st
          | Inr line_above \<Rightarrow>
             (let comment_above = strip line_above in
              if \<not> startswith comment_above ''#''
              then Raise (AssertionError (''Expected comment, got '' @ comment_above)) st
              else
                let comment = get_comment (comments st);
                    st1 = st\<lparr>comments := []\<rparr>
                in (case component_get_fields (ct (component (self st1))) prop of
                      None \<Rightarrow> Raise (KeyError prop) st1
                    | Some t \<Rightarrow>
                        Continue (st1\<lparr>out := out st1 @
                          [\<lparr>name = prop, prop_type = t, description = comment\<rparr>]\<rparr>)))))"

fun loop :: "class_table \<Rightarrow> string set \<Rightarrow> (nat \<times> string) list \<Rightarrow> loop_state
    \<Rightarrow> error option \<times> loop_state" where
  "loop ct props [] st = (None, st)"
| "loop ct props ((i, line) # rest) st =
     (case loop_body ct props i line st of
        Continue st1 \<Rightarrow> loop ct props rest st1
      | Break st1 \<Rightarrow> (None, st1)
      | Raise e st1 \<Rightarrow> (Some e, st1))"

text \<open>\<open>Source._get_props\<close> (a leading underscore is not a name here).\<close>

definition private_get_props :: "class_table \<Rightarrow> Source \<Rightarrow> (error + Prop list) \<times> Source" where
  "private_get_props ct self0 =
     (let props = component_get_props (ct (component self0));
          st0 = \<lparr>self = self0, out = [], comments = []\<rparr>
      in case loop ct props (enumerate 0 (code self0)) st0 of
        (None, st) \<Rightarrow> (Inr (out st), self st)
      | (Some e, st) \<Rightarrow> (Inl e, self st))"

text \<open>
  \<open>Source.get_props\<close>. The recursion follows \<open>__bases__[0]\<close> through the class table; a
  call that does not return is \<open>None\<close>. In Python the bases of a class exist before the
  class, so no chain of first bases is circular; a table need not be like that.
\<close>

partial_function (option) get_props ::
    "class_table \<Rightarrow> Source \<Rightarrow> ((error + Prop list) \<times> Source) option" where
  "get_props ct self0 =
     (case private_get_props ct self0 of
        (Inl e, self1) \<Rightarrow> Some (Inl e, self1)
      | (Inr props, self1) \<Rightarrow>
          let parent_cls = bases0 (ct (component self1)) in
          if parent_cls \<noteq> rx_Component
          then Option.bind (get_props ct (Source_init ct parent_cls))
                 (\<lambda>(r, parent). case r of
                     Inl e \<Rightarrow> Some (Inl e, self1)
                   | Inr inherited \<Rightarrow> Some (Inr (props @ inherited), self1))
          else Some (Inr props, self1))"

declare get_props.simps [code]

subsection \<open>prop_docs\<close>







subsection \<open>Notions used in the statements\<close>

text \<open>
  A line reaches the assertion of \<open>_get_props\<close> when it is not a method line, not a
  comment, and its first \<open>\w+:\<close> match names a declared prop.
\<close>

definition matches_prop :: "string set \<Rightarrow> string \<Rightarrow> bool" where
  "matches_prop props line =
     (\<not> re_search_literal ''def '' line \<and> \<not> startswith (strip line) ''#'' \<and>
      (case re_search_word_colon line of
         None \<Rightarrow> False
       | Some m \<Rightarrow> strip_chars '':'' m \<in> props))"

text \<open>A comment line that the scan stores in the buffer, and a line that it passes over.\<close>

definition comment_line :: "string \<Rightarrow> bool" where
  "comment_line line = (\<not> re_search_literal ''def '' line \<and> startswith (strip line) ''#'')"

definition skipped_line :: "string set \<Rightarrow> string \<Rightarrow> bool" where
  "skipped_line props line =
     (\<not> re_search_literal ''def '' line \<and> \<not> startswith (strip line) ''#'' \<and>
      (case re_search_word_colon line of
         None \<Rightarrow> True
       | Some m \<Rightarrow> strip_chars '':'' m \<notin> props))"

text \<open>The \<open>n\<close>-th class on the chain of first bases of a class.\<close>

definition nth_base :: "class_table \<Rightarrow> nat \<Rightarrow> cname \<Rightarrow> cname" where
  "nth_base ct n c = ((\<lambda>k. bases0 (ct k)) ^^ n) c"

text \<open>Two loop states with the same local variables, for objects of the same class.\<close>

definition agree :: "loop_state \<Rightarrow> loop_state \<Rightarrow> bool" where
  "agree a b = (out a = out b \<and> comments a = comments b \<and>
                component (self a) = component (self b))"

subsection \<open>Example classes\<close>

definition text_of :: "string list \<Rightarrow> string" where
  "text_of ls = concat (map (\<lambda>l. l @ [CHR 0x0A]) ls)"

definition ex_int :: type_obj where
  "ex_int = TypeObj False [] (Some ''int'')"

definition ex_var_int :: type_obj where
  "ex_var_int = TypeObj True [ex_int] None"


definition ex_Foo :: component_class where
  "ex_Foo =
     \<lparr>getsource = text_of
        [''class Foo(rx.Component):'', ''    # desc_a'', ''    a: int'', [], ''    b: str''],
      component_get_props = {''a''},
      component_get_fields = [''a'' \<mapsto> ex_int],
      bases0 = rx_Component,
      doc = None\<rparr>"

definition ex_Bar :: component_class where
  "ex_Bar =
     \<lparr>getsource = text_of
        [''class Bar(Foo):'', ''    # The tag.'', ''    tag = 1'', ''    # The size,'',
         ''    # in pixels.'', ''    size: Var[int]'', ''    def render(self):'',
         ''        # inner'', ''        a: int = 0''],
      component_get_props = {''a'', ''size''},
      component_get_fields = [''a'' \<mapsto> ex_int, ''size'' \<mapsto> ex_var_int],
      bases0 = ''Foo'',
      doc = Some ''A bar.''\<rparr>"

definition ex_ct :: class_table where
  "ex_ct c = (if c = ''Bar'' then ex_Bar else ex_Foo)"

section \<open>Properties\<close>

subsection \<open>One pass through the loop body\<close>

lemma loop_body_def_line:
  "re_search_literal ''def '' line \<Longrightarrow> loop_body ct props i line st = Break st"
  by (simp add: loop_body_def)

lemma loop_body_comment:
  "comment_line line \<Longrightarrow>
   loop_body ct props i line st = Continue (st\<lparr>comments := comments st @ [line]\<rparr>)"
  by (simp add: loop_body_def comment_line_def)

lemma loop_body_skipped:
  "skipped_line props line \<Longrightarrow> loop_body ct props i line st = Continue st"
  by (auto simp: loop_body_def skipped_line_def Let_def split: option.splits)

lemma loop_body_matched:
  assumes "matches_prop props line" and "re_search_word_colon line = Some m"
  shows "loop_body ct props i line st =
     (case getitem (code (self st)) (int i - 1) of
        Inl e \<Rightarrow> Raise e st
      | Inr line_above \<Rightarrow>
          if \<not> startswith (strip line_above) ''#''
          then Raise (AssertionError (''Expected comment, got '' @ strip line_above)) st
          else (case component_get_fields (ct (component (self st))) (strip_chars '':'' m) of
                  None \<Rightarrow> Raise (KeyError (strip_chars '':'' m)) (st\<lparr>comments := []\<rparr>)
                | Some t \<Rightarrow>
                    Continue (st\<lparr>comments := [], out := out st @
                      [\<lparr>name = strip_chars '':'' m, prop_type = t,
                        description = get_comment (comments st)\<rparr>]\<rparr>)))"
  using assms
  by (auto simp: loop_body_def matches_prop_def Let_def split: option.splits sum.splits)

lemma line_cases:
  "re_search_literal ''def '' line \<or> comment_line line \<or> skipped_line props line \<or>
   matches_prop props line"
  by (auto simp: comment_line_def skipped_line_def matches_prop_def split: option.splits)

lemma matches_prop_match:
  "matches_prop props line \<Longrightarrow> \<exists>m. re_search_word_colon line = Some m"
  by (auto simp: matches_prop_def split: option.splits)

lemma loop_body_Break:
  "loop_body ct props i line st = Break st' \<Longrightarrow> re_search_literal ''def '' line"
  by (auto simp: loop_body_def Let_def split: if_splits option.splits sum.splits)

lemma loop_body_self:
  "(case loop_body ct props i line st of
      Continue s \<Rightarrow> self s = self st
    | Break s \<Rightarrow> self s = self st
    | Raise e s \<Rightarrow> self s = self st)"
  by (simp add: loop_body_def Let_def split: option.split sum.split)

text \<open>The line that the assertion reads, for an index inside the list.\<close>

lemma getitem_above:
  "i < length xs \<Longrightarrow>
   getitem xs (int i - 1) = Inr (if i = 0 then last xs else xs ! (i - 1))"
proof (cases i)
  case 0
  assume "i < length xs"
  with 0 have ne: "xs \<noteq> []" by auto
  have "nat (int (length xs) - 1) = length xs - 1" by arith
  with 0 ne show ?thesis by (simp add: getitem_def last_conv_nth)
next
  case (Suc k)
  assume "i < length xs"
  with Suc show ?thesis by (simp add: getitem_def)
qed

subsection \<open>The loop\<close>

lemma loop_self: "self (snd (loop ct props xs st)) = self st"
proof (induction xs arbitrary: st)
  case Nil
  show ?case by simp
next
  case (Cons x xs)
  obtain i line where x: "x = (i, line)" by (cases x)
  from loop_body_self [where ct = ct and props = props and i = i and line = line and st = st]
    Cons.IH
  show ?case
    by (simp add: x split: ctl.splits)
qed

lemma private_get_props_self: "snd (private_get_props ct s) = s"
proof -
  let ?st0 = "\<lparr>self = s, out = [], comments = []\<rparr>"
  let ?props = "component_get_props (ct (component s))"
  have "self (snd (loop ct ?props (enumerate 0 (code s)) ?st0)) = s"
    using loop_self [where ct = ct and props = ?props and xs = "enumerate 0 (code s)"
        and st = ?st0] by simp
  then show ?thesis
    by (auto simp: private_get_props_def Let_def split: prod.split option.split)
qed

lemma loop_comment_lines:
  "\<forall>c \<in> set cs. comment_line c \<Longrightarrow>
   loop ct props (enumerate n cs @ rest) st =
   loop ct props rest (st\<lparr>comments := comments st @ cs\<rparr>)"
  by (induction cs arbitrary: n st) (simp_all add: loop_body_comment)

lemma loop_stops_at_def:
  "re_search_literal ''def '' d \<Longrightarrow>
   loop ct props (enumerate n (pre @ d # post)) st = loop ct props (enumerate n pre) st"
  by (induction pre arbitrary: n st) (simp_all add: loop_body_def_line split: ctl.splits)

lemma loop_body_agree_Continue:
  "agree st st' \<Longrightarrow> loop_body ct props i line st = Continue a \<Longrightarrow>
   loop_body ct props i line st' = Continue b \<Longrightarrow> agree a b"
  by (auto simp: agree_def loop_body_def Let_def split: if_splits option.splits sum.splits)

lemma loop_agree:
  "agree st st' \<Longrightarrow> loop ct props xs st = (None, r) \<Longrightarrow> loop ct props xs st' = (None, r')
   \<Longrightarrow> out r = out r'"
proof (induction xs arbitrary: st st')
  case Nil
  then show ?case by (simp add: agree_def)
next
  case (Cons x xs)
  obtain i line where x: "x = (i, line)" by (cases x)
  show ?case
  proof (cases "re_search_literal ''def '' line")
    case True
    with Cons.prems show ?thesis
      by (simp add: x loop_body_def_line agree_def)
  next
    case False
    from False obtain a where a: "loop_body ct props i line st = Continue a"
      using Cons.prems(2) loop_body_Break [of ct props i line st]
      by (cases "loop_body ct props i line st") (auto simp: x)
    from False obtain b where b: "loop_body ct props i line st' = Continue b"
      using Cons.prems(3) loop_body_Break [of ct props i line st']
      by (cases "loop_body ct props i line st'") (auto simp: x)
    from loop_body_agree_Continue [OF Cons.prems(1) a b] have "agree a b" .
    moreover from Cons.prems(2) a have "loop ct props xs a = (None, r)" by (simp add: x)
    moreover from Cons.prems(3) b have "loop ct props xs b = (None, r')" by (simp add: x)
    ultimately show ?thesis by (rule Cons.IH)
  qed
qed

lemma loop_aborts:
  assumes "i < length xs" and "\<forall>j<i. \<not> re_search_literal ''def '' (xs ! j)"
    and "matches_prop props (xs ! i)"
    and "getitem (code (self st)) (int (n + i) - 1) = Inr l"
    and "\<not> startswith (strip l) ''#''"
  shows "\<exists>e. fst (loop ct props (enumerate n xs) st) = Some e"
  using assms
proof (induction xs arbitrary: i n st)
  case Nil
  then show ?case by simp
next
  case (Cons x xs)
  show ?case
  proof (cases i)
    case 0
    with Cons.prems obtain m where "re_search_word_colon x = Some m" and "matches_prop props x"
      using matches_prop_match [of props x] by auto
    with 0 Cons.prems show ?thesis
      by (simp add: loop_body_matched)
  next
    case (Suc k)
    with Cons.prems have nodef: "\<not> re_search_literal ''def '' x" by auto
    show ?thesis
    proof (cases "loop_body ct props n x st")
      case (Continue st1)
      have s: "self st1 = self st"
        using loop_body_self [where ct = ct and props = props and i = n and line = x and st = st]
        by (simp add: Continue)
      have "\<exists>e. fst (loop ct props (enumerate (Suc n) xs) st1) = Some e"
      proof (rule Cons.IH [where i = k])
        show "k < length xs" using Cons.prems(1) Suc by simp
        show "\<forall>j<k. \<not> re_search_literal ''def '' (xs ! j)"
          using Cons.prems(2) Suc by auto
        show "matches_prop props (xs ! k)" using Cons.prems(3) Suc by simp
        show "getitem (code (self st1)) (int (Suc n + k) - 1) = Inr l"
          using Cons.prems(4) Suc s by simp
        show "\<not> startswith (strip l) ''#''" by (rule Cons.prems(5))
      qed
      with Continue show ?thesis by simp
    next
      case (Break st1)
      with nodef loop_body_Break show ?thesis by blast
    next
      case (Raise e st1)
      then show ?thesis by simp
    qed
  qed
qed

lemma loop_error_kinds:
  assumes "fst (loop ct props (enumerate n xs) st) = Some e"
    and "n + length xs \<le> length (code (self st))"
  shows "(\<exists>msg. e = AssertionError msg) \<or>
         (\<exists>k. e = KeyError k \<and> k \<in> props \<and>
              component_get_fields (ct (component (self st))) k = None)"
  using assms
proof (induction xs arbitrary: n st)
  case Nil
  then show ?case by simp
next
  case (Cons x xs)
  show ?case
  proof (cases "loop_body ct props n x st")
    case (Continue st1)
    have s: "self st1 = self st"
      using loop_body_self [where ct = ct and props = props and i = n and line = x and st = st]
      by (simp add: Continue)
    have "(\<exists>msg. e = AssertionError msg) \<or>
         (\<exists>k. e = KeyError k \<and> k \<in> props \<and>
              component_get_fields (ct (component (self st1))) k = None)"
    proof (rule Cons.IH)
      show "fst (loop ct props (enumerate (Suc n) xs) st1) = Some e"
        using Cons.prems(1) Continue by simp
      show "Suc n + length xs \<le> length (code (self st1))"
        using Cons.prems(2) s by simp
    qed
    then show ?thesis by (simp add: s)
  next
    case (Break st1)
    with Cons.prems(1) show ?thesis by simp
  next
    case (Raise e' st1)
    with Cons.prems(1) have e: "e' = e" by simp
    show ?thesis
    proof (cases "matches_prop props x")
      case True
      then obtain m where m: "re_search_word_colon x = Some m"
        using matches_prop_match by blast
      from True m have inprops: "strip_chars '':'' m \<in> props"
        by (simp add: matches_prop_def)
      have "n < length (code (self st))" using Cons.prems(2) by simp
      from getitem_above [OF this] Raise e inprops show ?thesis
        by (auto simp: loop_body_matched [OF True m] split: option.splits if_splits)
    next
      case False
      with line_cases [of x props] Raise show ?thesis
        by (auto simp: loop_body_def_line loop_body_comment loop_body_skipped)
    qed
  qed
qed

lemma loop_error_is_KeyError:
  assumes "\<forall>i<length xs. (\<forall>j<i. \<not> re_search_literal ''def '' (xs ! j)) \<and>
             matches_prop props (xs ! i) \<longrightarrow>
             (\<exists>l. getitem (code (self st)) (int (n + i) - 1) = Inr l \<and> startswith (strip l) ''#'')"
    and "fst (loop ct props (enumerate n xs) st) = Some e"
  shows "\<exists>k. e = KeyError k \<and> k \<in> props \<and>
             component_get_fields (ct (component (self st))) k = None"
  using assms
proof (induction xs arbitrary: n st)
  case Nil
  then show ?case by simp
next
  case (Cons x xs)
  show ?case
  proof (cases "loop_body ct props n x st")
    case (Continue st1)
    have s: "self st1 = self st"
      using loop_body_self [where ct = ct and props = props and i = n and line = x and st = st]
      by (simp add: Continue)
    have nodef: "\<not> re_search_literal ''def '' x"
      using Continue by (auto simp: loop_body_def_line)
    have "\<exists>k. e = KeyError k \<and> k \<in> props \<and>
             component_get_fields (ct (component (self st1))) k = None"
    proof (rule Cons.IH)
      show "\<forall>i<length xs. (\<forall>j<i. \<not> re_search_literal ''def '' (xs ! j)) \<and>
             matches_prop props (xs ! i) \<longrightarrow>
             (\<exists>l. getitem (code (self st1)) (int (Suc n + i) - 1) = Inr l \<and>
                  startswith (strip l) ''#'')"
      proof (intro allI impI)
        fix i
        assume i: "i < length xs"
          and h: "(\<forall>j<i. \<not> re_search_literal ''def '' (xs ! j)) \<and> matches_prop props (xs ! i)"
        have "\<forall>j<Suc i. \<not> re_search_literal ''def '' ((x # xs) ! j)"
          using h nodef by (auto simp: nth_Cons split: nat.splits)
        with Cons.prems(1) [rule_format, of "Suc i"] i h
        show "\<exists>l. getitem (code (self st1)) (int (Suc n + i) - 1) = Inr l \<and>
                  startswith (strip l) ''#''"
          by (simp add: s)
      qed
      show "fst (loop ct props (enumerate (Suc n) xs) st1) = Some e"
        using Cons.prems(2) Continue by simp
    qed
    then show ?thesis by (simp add: s)
  next
    case (Break st1)
    with Cons.prems(2) show ?thesis by simp
  next
    case (Raise e' st1)
    with Cons.prems(2) have e: "e' = e" by simp
    show ?thesis
    proof (cases "matches_prop props x")
      case True
      then obtain m where m: "re_search_word_colon x = Some m"
        using matches_prop_match by blast
      from True m have inprops: "strip_chars '':'' m \<in> props"
        by (simp add: matches_prop_def)
      from Cons.prems(1) [rule_format, of 0] True
      obtain l where "getitem (code (self st)) (int n - 1) = Inr l" "startswith (strip l) ''#''"
        by auto
      with Raise e inprops show ?thesis
        by (auto simp: loop_body_matched [OF True m] split: option.splits)
    next
      case False
      with line_cases [of x props] Raise show ?thesis
        by (auto simp: loop_body_def_line loop_body_comment loop_body_skipped)
    qed
  qed
qed

lemma loop_comments_then_prop:
  assumes "code (self st) = pre @ cs @ p # post"
    and "cs \<noteq> []" and "\<forall>c \<in> set cs. comment_line c"
    and "matches_prop props p" and "re_search_word_colon p = Some m"
    and "component_get_fields (ct (component (self st))) (strip_chars '':'' m) = Some t"
  shows "loop ct props (enumerate (length pre) (cs @ p # post)) st =
         loop ct props (enumerate (length pre + length cs + 1) post)
           (st\<lparr>comments := [], out := out st @
              [\<lparr>name = strip_chars '':'' m, prop_type = t,
                description = get_comment (comments st @ cs)\<rparr>]\<rparr>)"
proof -
  let ?st1 = "st\<lparr>comments := comments st @ cs\<rparr>"
  let ?i = "length pre + length cs"
  have "?i < length (code (self ?st1))" using assms(1) by simp
  then have "getitem (code (self ?st1)) (int ?i - 1) =
      Inr (if ?i = 0 then last (code (self ?st1)) else code (self ?st1) ! (?i - 1))"
    by (rule getitem_above)
  moreover have "code (self ?st1) ! (?i - 1) = last cs"
  proof -
    have "?i - 1 = length pre + (length cs - 1)" using assms(2) by (cases cs) simp_all
    then have "code (self ?st1) ! (?i - 1) = (cs @ p # post) ! (length cs - 1)"
      using assms(1) by (simp del: append_assoc)
    also have "\<dots> = last cs" using assms(2) by (simp add: nth_append last_conv_nth)
    finally show ?thesis .
  qed
  ultimately have g: "getitem (code (self ?st1)) (int ?i - 1) = Inr (last cs)"
    using assms(2) by simp
  have c: "startswith (strip (last cs)) ''#''"
    using assms(2,3) by (simp add: comment_line_def)
  have "loop ct props (enumerate (length pre) (cs @ p # post)) st =
        loop ct props ((?i, p) # enumerate (Suc ?i) post) ?st1"
    using loop_comment_lines [OF assms(3), of ct props "length pre"
        "(?i, p) # enumerate (Suc ?i) post" st]
    by (simp add: enumerate_append_eq)
  also have "\<dots> = loop ct props (enumerate (Suc ?i) post)
           (st\<lparr>comments := [], out := out st @
              [\<lparr>name = strip_chars '':'' m, prop_type = t,
                description = get_comment (comments st @ cs)\<rparr>]\<rparr>)"
    using g c assms(6) by (simp add: loop_body_matched [OF assms(4,5)])
  finally show ?thesis by simp
qed

subsection \<open>Lines of a text\<close>

lemma splitlines_from_line:
  "\<forall>ch \<in> set l. \<not> is_linebreak ch \<Longrightarrow>
   splitlines_from cur (l @ CHR 0x0A # rest) = (cur @ l) # splitlines_from [] rest"
proof (induction l arbitrary: cur)
  case Nil
  have "is_linebreak (CHR 0x0A)" by (simp add: is_linebreak_def)
  then show ?case by (cases rest) simp_all
next
  case (Cons a l)
  from Cons.prems have a: "\<not> is_linebreak a" by simp
  have "is_linebreak (CHR 0x0D)" by (simp add: is_linebreak_def)
  with a have cr: "a \<noteq> CHR 0x0D" by auto
  obtain d cs where dc: "l @ CHR 0x0A # rest = d # cs" by (cases l) auto
  have "splitlines_from cur (a # d # cs) = splitlines_from (cur @ [a]) (d # cs)"
    using a cr by simp
  with dc Cons.IH [of "cur @ [a]"] Cons.prems show ?case by simp
qed

lemma splitlines_text_of:
  "\<forall>l \<in> set ls. \<forall>ch \<in> set l. \<not> is_linebreak ch \<Longrightarrow> splitlines (text_of ls) = ls"
proof (induction ls)
  case Nil
  show ?case by (simp add: splitlines_def text_of_def)
next
  case (Cons l ls)
  then have "splitlines_from [] (text_of ls) = ls" by (simp add: splitlines_def)
  moreover have "text_of (l # ls) = l @ CHR 0x0A # text_of ls" by (simp add: text_of_def)
  ultimately show ?case
    using Cons.prems splitlines_from_line [of l "[]" "text_of ls"]
    by (simp add: splitlines_def)
qed

subsection \<open>Inheritance\<close>

text \<open>
  Claim C4. For a class whose first base is not the framework's root component class,
  \<open>get_props\<close> returns the records parsed from the class itself followed by the records
  that \<open>get_props\<close> returns for a fresh \<open>Source\<close> of the first base.
\<close>

theorem get_props_appends_base:
  assumes "bases0 (ct (component s)) \<noteq> rx_Component"
    and "fst (private_get_props ct s) = Inr own"
    and "map_option fst (get_props ct (Source_init ct (bases0 (ct (component s))))) =
           Some (Inr inherited)"
  shows "map_option fst (get_props ct s) = Some (Inr (own @ inherited))"
proof -
  have p: "private_get_props ct s = (Inr own, s)"
    using private_get_props_self [of ct s] assms(2) by (cases "private_get_props ct s") simp
  from assms(3) obtain s' where
    "get_props ct (Source_init ct (bases0 (ct (component s)))) = Some (Inr inherited, s')"
    by auto
  with assms(1) show ?thesis
    by (subst get_props.simps) (simp add: p Let_def)
qed

theorem get_props_appends_base_witness:
  "bases0 (ex_ct (component (Source_init ex_ct ''Bar''))) \<noteq> rx_Component \<and>
   map_option fst (get_props ex_ct (Source_init ex_ct ''Bar'')) =
     Some (Inr ([\<lparr>name = ''size'', prop_type = ex_var_int,
                  description = '' The tag. The size, in pixels.''\<rparr>] @
                [\<lparr>name = ''a'', prop_type = ex_int, description = '' desc_a''\<rparr>]))"
proof -
  let ?s = "Source_init ex_ct ''Bar''"
  have h1: "bases0 (ex_ct (component ?s)) \<noteq> rx_Component"
    by code_simp
  have h2: "fst (private_get_props ex_ct ?s) =
      Inr [\<lparr>name = ''size'', prop_type = ex_var_int, description = '' The tag. The size, in pixels.''\<rparr>]"
    by code_simp
  have h3: "map_option fst (get_props ex_ct (Source_init ex_ct (bases0 (ex_ct (component ?s))))) =
      Some (Inr [\<lparr>name = ''a'', prop_type = ex_int, description = '' desc_a''\<rparr>])"
    by code_simp
  from h1 get_props_appends_base [OF h1 h2 h3] show ?thesis by simp
qed

text \<open>
  Claim C8. When the chain of first bases of the class reaches the framework's root
  component class after finitely many steps, \<open>get_props\<close> returns: with a list of records
  or with the exception that a parse on the chain raised.
\<close>

theorem get_props_terminates:
  "nth_base ct (Suc n) (component s) = rx_Component \<Longrightarrow> \<exists>r. get_props ct s = Some r"
proof (induction n arbitrary: s)
  case 0
  obtain r0 where p: "private_get_props ct s = (r0, s)"
    using private_get_props_self [of ct s] by (cases "private_get_props ct s") simp
  from 0 have "bases0 (ct (component s)) = rx_Component" by (simp add: nth_base_def)
  then show ?case
    by (subst get_props.simps) (simp add: p Let_def split: sum.split)
next
  case (Suc n)
  obtain r0 where p: "private_get_props ct s = (r0, s)"
    using private_get_props_self [of ct s] by (cases "private_get_props ct s") simp
  let ?parent = "Source_init ct (bases0 (ct (component s)))"
  have "nth_base ct (Suc n) (component ?parent) = rx_Component"
    using Suc.prems
    by (simp add: nth_base_def Source_init_def funpow_Suc_right del: funpow.simps)
  from Suc.IH [OF this] obtain r where r: "get_props ct ?parent = Some r" ..
  show ?case
    by (subst get_props.simps)
       (simp add: p r Let_def split: sum.split prod.split)
qed

theorem get_props_terminates_witness:
  "nth_base ex_ct (Suc 1) (component (Source_init ex_ct ''Bar'')) = rx_Component \<and>
   (\<exists>r. get_props ex_ct (Source_init ex_ct ''Bar'') = Some r)"
proof -
  have h: "nth_base ex_ct (Suc 1) (component (Source_init ex_ct ''Bar'')) = rx_Component"
    by code_simp
  from h get_props_terminates [OF h] show ?thesis by simp
qed

subsection \<open>The Source object is only read\<close>

text \<open>
  Claim C7. \<open>get_docs\<close>, \<open>_get_props\<close> and \<open>get_props\<close> hand the \<open>Source\<close> back as they
  received it, with the same \<open>component\<close> and the same \<open>code\<close>, whether they return a
  value or raise.
\<close>

theorem source_immutable:
  "snd (get_docs ct s) = s \<and> snd (private_get_props ct s) = s \<and>
   (\<forall>r s'. get_props ct s = Some (r, s') \<longrightarrow> s' = s)"
proof -
  have "s' = s" if "get_props ct s = Some (r, s')" for r s'
  proof -
    obtain r0 where p: "private_get_props ct s = (r0, s)"
      using private_get_props_self [of ct s] by (cases "private_get_props ct s") simp
    have "get_props ct s = Some (r, s') \<Longrightarrow> s' = s"
      by (subst (asm) get_props.simps, cases r0;
          cases "get_props ct (Source_init ct (bases0 (ct (component s))))")
         (auto simp: p Let_def split: sum.splits if_splits prod.splits)
    with that show ?thesis by simp
  qed
  then show ?thesis by (simp add: get_docs_def private_get_props_self)
qed

theorem source_immutable_witness:
  "get_props ex_ct (Source_init ex_ct ''Foo'') =
     Some (Inr [\<lparr>name = ''a'', prop_type = ex_int, description = '' desc_a''\<rparr>],
           Source_init ex_ct ''Foo'') \<and>
   get_props ex_ct \<lparr>component = ''Bar'', code = [''class Bad(Foo):'', ''    a: int'']\<rparr> =
     Some (Inl (AssertionError ''Expected comment, got class Bad(Foo):''),
           \<lparr>component = ''Bar'', code = [''class Bad(Foo):'', ''    a: int'']\<rparr>)"
proof -
  let ?ok = "Source_init ex_ct ''Foo''"
  let ?bad = "\<lparr>component = ''Bar'', code = [''class Bad(Foo):'', ''    a: int'']\<rparr>"
  have "map_option fst (get_props ex_ct ?ok) =
      Some (Inr [\<lparr>name = ''a'', prop_type = ex_int, description = '' desc_a''\<rparr>])"
    by code_simp
  then obtain s1 where ok: "get_props ex_ct ?ok =
      Some (Inr [\<lparr>name = ''a'', prop_type = ex_int, description = '' desc_a''\<rparr>], s1)"
    by auto
  have "map_option fst (get_props ex_ct ?bad) =
      Some (Inl (AssertionError ''Expected comment, got class Bad(Foo):''))"
    by code_simp
  then obtain s2 where bad: "get_props ex_ct ?bad =
      Some (Inl (AssertionError ''Expected comment, got class Bad(Foo):''), s2)"
    by auto
  from ok source_immutable [of ex_ct ?ok] have "s1 = ?ok" by blast
  moreover from bad source_immutable [of ex_ct ?bad] have "s2 = ?bad" by blast
  ultimately show ?thesis using ok bad by simp
qed

subsection \<open>Display colour\<close>



subsection \<open>The scan stops at the first method line\<close>

text \<open>
  Claim C5. The loop leaves at the first line in which \<open>def \<close> occurs: scanning the stored
  lines is scanning the lines before that line. The records returned do not depend on the
  lines that follow it: two sources that differ only after the method line return the same
  records whenever both parses return.
\<close>

theorem scan_stops_at_def:
  assumes "re_search_literal ''def '' d"
  shows "loop ct props (enumerate n (pre @ d # post)) st = loop ct props (enumerate n pre) st \<and>
         (\<forall>c post' ps ps'.
            fst (private_get_props ct \<lparr>component = c, code = pre @ d # post\<rparr>) = Inr ps \<and>
            fst (private_get_props ct \<lparr>component = c, code = pre @ d # post'\<rparr>) = Inr ps'
            \<longrightarrow> ps = ps')"
proof -
  have "ps = ps'"
    if p: "fst (private_get_props ct \<lparr>component = c, code = pre @ d # post\<rparr>) = Inr ps"
    and q: "fst (private_get_props ct \<lparr>component = c, code = pre @ d # post'\<rparr>) = Inr ps'"
    for c post' ps ps'
  proof -
    let ?props = "component_get_props (ct c)"
    let ?a = "\<lparr>self = \<lparr>component = c, code = pre @ d # post\<rparr>, out = [], comments = []\<rparr>"
    let ?b = "\<lparr>self = \<lparr>component = c, code = pre @ d # post'\<rparr>, out = [], comments = []\<rparr>"
    obtain e r where r: "loop ct ?props (enumerate 0 pre) ?a = (e, r)" by force
    obtain e' r' where r': "loop ct ?props (enumerate 0 pre) ?b = (e', r')" by force
    from p r have "e = None" and ps: "ps = out r"
      by (auto simp: private_get_props_def loop_stops_at_def [OF assms] split: option.splits)
    moreover from q r' have "e' = None" and ps': "ps' = out r'"
      by (auto simp: private_get_props_def loop_stops_at_def [OF assms] split: option.splits)
    moreover have "agree ?a ?b" by (simp add: agree_def)
    ultimately have "out r = out r'" using r r' loop_agree by blast
    with ps ps' show ?thesis by simp
  qed
  with loop_stops_at_def [OF assms] show ?thesis by blast
qed

theorem scan_stops_at_def_witness:
  "re_search_literal ''def '' ''    def render(self):'' \<and>
   fst (private_get_props ex_ct (Source_init ex_ct ''Bar'')) =
     Inr [\<lparr>name = ''size'', prop_type = ex_var_int,
           description = '' The tag. The size, in pixels.''\<rparr>] \<and>
   fst (private_get_props ex_ct \<lparr>component = ''Bar'', code =
      [''class Bar(Foo):'', ''    # The tag.'', ''    tag = 1'', ''    # The size,'',
       ''    # in pixels.'', ''    size: Var[int]''] @ ''    def render(self):'' # []\<rparr>) =
     Inr [\<lparr>name = ''size'', prop_type = ex_var_int,
           description = '' The tag. The size, in pixels.''\<rparr>]"
proof -
  let ?pre = "[''class Bar(Foo):'', ''    # The tag.'', ''    tag = 1'', ''    # The size,'',
       ''    # in pixels.'', ''    size: Var[int]'']"
  let ?d = "''    def render(self):''"
  let ?post = "[''        # inner'', ''        a: int = 0'']"
  let ?ps = "[\<lparr>name = ''size'', prop_type = ex_var_int,
           description = '' The tag. The size, in pixels.''\<rparr>]"
  have d: "re_search_literal ''def '' ?d" by code_simp
  have c: "Source_init ex_ct ''Bar'' = \<lparr>component = ''Bar'', code = ?pre @ ?d # ?post\<rparr>"
    by code_simp
  have a: "fst (private_get_props ex_ct \<lparr>component = ''Bar'', code = ?pre @ ?d # ?post\<rparr>) =
      Inr ?ps"
    by code_simp
  have "\<not> isl (fst (private_get_props ex_ct \<lparr>component = ''Bar'', code = ?pre @ ?d # []\<rparr>))"
    by code_simp
  then obtain ps' where
    b: "fst (private_get_props ex_ct \<lparr>component = ''Bar'', code = ?pre @ ?d # []\<rparr>) = Inr ps'"
    by (cases "fst (private_get_props ex_ct \<lparr>component = ''Bar'', code = ?pre @ ?d # []\<rparr>)")
       auto
  from scan_stops_at_def [where d = ?d and pre = ?pre and post = ?post and ct = ex_ct, OF d] a b
  have "?ps = ps'" by blast
  with d a b c show ?thesis by simp
qed

subsection \<open>The assertion on the line above\<close>

text \<open>
  Claim C2. When the scan reaches a line that matches a declared prop and the stored line
  at index \<open>i - 1\<close>, trimmed, does not start with \<open>#\<close>, the body raises the assertion
  error and the parse aborts, with an assertion error when every declared prop is a field
  of the class. When every such line that the scan reaches has a comment line
  at index \<open>i - 1\<close>, the parse raises no assertion error, and it returns its records
  when every declared prop is a field of the class.
\<close>

theorem comment_above_assertion:
  "(matches_prop props line \<and> getitem (code (self st)) (int i - 1) = Inr l \<and>
    \<not> startswith (strip l) ''#'' \<longrightarrow>
      loop_body ct props i line st =
        Raise (AssertionError (''Expected comment, got '' @ strip l)) st) \<and>
   (i < length (code s) \<and> (\<forall>j<i. \<not> re_search_literal ''def '' (code s ! j)) \<and>
    matches_prop (component_get_props (ct (component s))) (code s ! i) \<and>
    getitem (code s) (int i - 1) = Inr l \<and> \<not> startswith (strip l) ''#'' \<longrightarrow>
      (\<exists>e. fst (private_get_props ct s) = Inl e) \<and>
      (component_get_props (ct (component s)) \<subseteq> dom (component_get_fields (ct (component s)))
         \<longrightarrow> (\<exists>msg. fst (private_get_props ct s) = Inl (AssertionError msg)))) \<and>
   ((\<forall>k<length (code s). (\<forall>j<k. \<not> re_search_literal ''def '' (code s ! j)) \<and>
        matches_prop (component_get_props (ct (component s))) (code s ! k) \<longrightarrow>
        (\<exists>a. getitem (code s) (int k - 1) = Inr a \<and> startswith (strip a) ''#'')) \<longrightarrow>
      (\<forall>msg. fst (private_get_props ct s) \<noteq> Inl (AssertionError msg)) \<and>
      (component_get_props (ct (component s)) \<subseteq> dom (component_get_fields (ct (component s)))
         \<longrightarrow> (\<exists>ps. fst (private_get_props ct s) = Inr ps)))"
proof (intro conjI impI)
  assume h: "matches_prop props line \<and> getitem (code (self st)) (int i - 1) = Inr l \<and>
    \<not> startswith (strip l) ''#''"
  then obtain m where "re_search_word_colon line = Some m"
    using matches_prop_match by blast
  with h show "loop_body ct props i line st =
        Raise (AssertionError (''Expected comment, got '' @ strip l)) st"
    by (simp add: loop_body_matched)
next
  let ?props = "component_get_props (ct (component s))"
  let ?st0 = "\<lparr>self = s, out = [], comments = []\<rparr>"
  assume h: "i < length (code s) \<and> (\<forall>j<i. \<not> re_search_literal ''def '' (code s ! j)) \<and>
    matches_prop ?props (code s ! i) \<and>
    getitem (code s) (int i - 1) = Inr l \<and> \<not> startswith (strip l) ''#''"
  have "\<exists>e. fst (loop ct ?props (enumerate 0 (code s)) ?st0) = Some e"
    by (rule loop_aborts [where i = i and l = l]) (use h in simp_all)
  then obtain e where e: "fst (loop ct ?props (enumerate 0 (code s)) ?st0) = Some e" ..
  then show "\<exists>e. fst (private_get_props ct s) = Inl e"
    by (auto simp: private_get_props_def split: prod.splits option.splits)
  have "(\<exists>msg. e = AssertionError msg) \<or>
        (\<exists>k. e = KeyError k \<and> k \<in> ?props \<and>
             component_get_fields (ct (component (self ?st0))) k = None)"
    using e by (rule loop_error_kinds) simp
  then show "\<exists>msg. fst (private_get_props ct s) = Inl (AssertionError msg)"
    if "?props \<subseteq> dom (component_get_fields (ct (component s)))"
    using e that by (fastforce simp: private_get_props_def split: prod.splits option.splits)
next
  let ?props = "component_get_props (ct (component s))"
  let ?st0 = "\<lparr>self = s, out = [], comments = []\<rparr>"
  assume h: "\<forall>k<length (code s). (\<forall>j<k. \<not> re_search_literal ''def '' (code s ! j)) \<and>
        matches_prop ?props (code s ! k) \<longrightarrow>
        (\<exists>a. getitem (code s) (int k - 1) = Inr a \<and> startswith (strip a) ''#'')"
  have k: "\<exists>k. e = KeyError k \<and> k \<in> ?props \<and> component_get_fields (ct (component s)) k = None"
    if "fst (loop ct ?props (enumerate 0 (code s)) ?st0) = Some e" for e
    using loop_error_is_KeyError [where xs = "code s" and props = ?props and st = ?st0
        and n = 0 and ct = ct and e = e] h that by simp
  show "\<forall>msg. fst (private_get_props ct s) \<noteq> Inl (AssertionError msg)"
    using k by (auto simp: private_get_props_def split: prod.splits option.splits)
  show "\<exists>ps. fst (private_get_props ct s) = Inr ps"
    if "?props \<subseteq> dom (component_get_fields (ct (component s)))"
    using k that by (fastforce simp: private_get_props_def split: prod.splits option.splits)
qed

theorem comment_above_assertion_witness:
  "fst (private_get_props ex_ct
      \<lparr>component = ''Bar'', code = [''class Bad(Foo):'', ''    a: int'']\<rparr>) =
     Inl (AssertionError ''Expected comment, got class Bad(Foo):'') \<and>
   fst (private_get_props ex_ct \<lparr>component = ''Bar'', code = [''# c'', ''a: int'']\<rparr>) =
     Inr [\<lparr>name = ''a'', prop_type = ex_int, description = '' c''\<rparr>]"
proof -
  let ?bad = "\<lparr>component = ''Bar'', code = [''class Bad(Foo):'', ''    a: int'']\<rparr>"
  let ?good = "\<lparr>component = ''Bar'', code = [''# c'', ''a: int'']\<rparr>"
  let ?props = "component_get_props (ex_ct ''Bar'')"
  let ?st = "\<lparr>self = ?bad, out = [], comments = []\<rparr>"
  have m: "matches_prop ?props ''    a: int''" by code_simp
  have g: "getitem (code (self ?st)) (int 1 - 1) = Inr ''class Bad(Foo):''" by code_simp
  have n: "\<not> startswith (strip ''class Bad(Foo):'') ''#''" by code_simp
  have step: "loop_body ex_ct ?props 1 ''    a: int'' ?st =
      Raise (AssertionError (''Expected comment, got '' @ strip ''class Bad(Foo):'')) ?st"
    using comment_above_assertion [of ?props "''    a: int''" ?st 1 "''class Bad(Foo):''" ex_ct]
      m g n by blast
  have nd: "\<forall>j<1. \<not> re_search_literal ''def '' (code ?bad ! j)" by code_simp
  have sub: "component_get_props (ex_ct (component ?bad)) \<subseteq>
      dom (component_get_fields (ex_ct (component ?bad)))"
    by (simp add: ex_ct_def ex_Bar_def)
  have "\<exists>msg. fst (private_get_props ex_ct ?bad) = Inl (AssertionError msg)"
    using comment_above_assertion [where s = ?bad and i = 1 and l = "''class Bad(Foo):''"
        and ct = ex_ct] m g n nd sub by simp
  moreover have "fst (private_get_props ex_ct ?bad) =
      Inl (AssertionError ''Expected comment, got class Bad(Foo):'')"
    by code_simp
  moreover have "\<forall>k<length (code ?good).
      (\<forall>j<k. \<not> re_search_literal ''def '' (code ?good ! j)) \<and>
      matches_prop (component_get_props (ex_ct (component ?good))) (code ?good ! k) \<longrightarrow>
      (\<exists>a. getitem (code ?good) (int k - 1) = Inr a \<and> startswith (strip a) ''#'')"
  proof (rule allI, rule impI)
    fix k
    assume "k < length (code ?good)"
    then consider "k = 0" | "k = 1" by fastforce
    then show "(\<forall>j<k. \<not> re_search_literal ''def '' (code ?good ! j)) \<and>
      matches_prop (component_get_props (ex_ct (component ?good))) (code ?good ! k) \<longrightarrow>
      (\<exists>a. getitem (code ?good) (int k - 1) = Inr a \<and> startswith (strip a) ''#'')"
    proof cases
      case 1
      have "\<not> matches_prop (component_get_props (ex_ct (component ?good))) (code ?good ! 0)"
        by code_simp
      with 1 show ?thesis by simp
    next
      case 2
      have "getitem (code ?good) (int 1 - 1) = Inr ''# c'' \<and> startswith (strip ''# c'') ''#''"
        by code_simp
      with 2 show ?thesis by blast
    qed
  qed
  moreover have "component_get_props (ex_ct (component ?good)) \<subseteq>
      dom (component_get_fields (ex_ct (component ?good)))"
    by (simp add: ex_ct_def ex_Bar_def)
  ultimately have "\<exists>ps. fst (private_get_props ex_ct ?good) = Inr ps"
    using comment_above_assertion [where s = ?good and ct = ex_ct] by blast
  moreover have "fst (private_get_props ex_ct ?good) =
      Inr [\<lparr>name = ''a'', prop_type = ex_int, description = '' c''\<rparr>]"
    by code_simp
  ultimately show ?thesis
    using \<open>fst (private_get_props ex_ct ?bad) =
      Inl (AssertionError ''Expected comment, got class Bad(Foo):'')\<close> step by simp
qed

text \<open>
  Claim C10. The stored \<open>code\<close> is the list of the non-empty lines of the source text, in
  order: of the lines that \<open>splitlines\<close> gives, and so, for a text made of lines that
  each end with a line feed, of those lines. The line that the assertion reads for a
  matched line at index \<open>i\<close> is the stored line at index \<open>i - 1\<close>, and for \<open>i = 0\<close> the
  last stored line; reading it never fails.
\<close>

theorem stored_code_and_line_above:
  "code (Source_init ct c) = filter (\<lambda>line. line \<noteq> []) (splitlines (getsource (ct c))) \<and>
   ((\<forall>line \<in> set ls. \<forall>ch \<in> set line. \<not> is_linebreak ch) \<and> getsource (ct c) = text_of ls
      \<longrightarrow> code (Source_init ct c) = filter (\<lambda>line. line \<noteq> []) ls) \<and>
   (i < length (code (self st)) \<and> matches_prop props line \<and>
    re_search_word_colon line = Some m \<longrightarrow>
      loop_body ct props i line st =
        (let line_above = (if i = 0 then last (code (self st)) else code (self st) ! (i - 1))
         in if startswith (strip line_above) ''#''
            then (case component_get_fields (ct (component (self st))) (strip_chars '':'' m) of
                    None \<Rightarrow> Raise (KeyError (strip_chars '':'' m)) (st\<lparr>comments := []\<rparr>)
                  | Some t \<Rightarrow>
                      Continue (st\<lparr>comments := [], out := out st @
                        [\<lparr>name = strip_chars '':'' m, prop_type = t,
                          description = get_comment (comments st)\<rparr>]\<rparr>))
            else Raise (AssertionError (''Expected comment, got '' @ strip line_above)) st))"
proof (intro conjI impI)
  show "code (Source_init ct c) = filter (\<lambda>line. line \<noteq> []) (splitlines (getsource (ct c)))"
    by (simp add: Source_init_def)
next
  assume "(\<forall>line \<in> set ls. \<forall>ch \<in> set line. \<not> is_linebreak ch) \<and> getsource (ct c) = text_of ls"
  then show "code (Source_init ct c) = filter (\<lambda>line. line \<noteq> []) ls"
    by (simp add: Source_init_def splitlines_text_of)
next
  assume h: "i < length (code (self st)) \<and> matches_prop props line \<and>
    re_search_word_colon line = Some m"
  then have "getitem (code (self st)) (int i - 1) =
      Inr (if i = 0 then last (code (self st)) else code (self st) ! (i - 1))"
    by (simp add: getitem_above)
  with h show "loop_body ct props i line st =
        (let line_above = (if i = 0 then last (code (self st)) else code (self st) ! (i - 1))
         in if startswith (strip line_above) ''#''
            then (case component_get_fields (ct (component (self st))) (strip_chars '':'' m) of
                    None \<Rightarrow> Raise (KeyError (strip_chars '':'' m)) (st\<lparr>comments := []\<rparr>)
                  | Some t \<Rightarrow>
                      Continue (st\<lparr>comments := [], out := out st @
                        [\<lparr>name = strip_chars '':'' m, prop_type = t,
                          description = get_comment (comments st)\<rparr>]\<rparr>))
            else Raise (AssertionError (''Expected comment, got '' @ strip line_above)) st)"
    by (simp add: loop_body_matched Let_def)
qed

theorem stored_code_and_line_above_witness:
  "code (Source_init ex_ct ''Foo'') =
     [''class Foo(rx.Component):'', ''    # desc_a'', ''    a: int'', ''    b: str''] \<and>
   loop_body ex_ct {''a''} 0 ''a: int''
     \<lparr>self = \<lparr>component = ''Foo'', code = [''a: int'', ''x = 1'', ''# last'']\<rparr>,
      out = [], comments = []\<rparr> =
   Continue
     \<lparr>self = \<lparr>component = ''Foo'', code = [''a: int'', ''x = 1'', ''# last'']\<rparr>,
      out = [\<lparr>name = ''a'', prop_type = ex_int, description = []\<rparr>], comments = []\<rparr>"
proof -
  let ?ls = "[''class Foo(rx.Component):'', ''    # desc_a'', ''    a: int'', [], ''    b: str'']"
  let ?st = "\<lparr>self = \<lparr>component = ''Foo'', code = [''a: int'', ''x = 1'', ''# last'']\<rparr>,
      out = [], comments = []\<rparr>"
  have l: "\<forall>line \<in> set ?ls. \<forall>ch \<in> set line. \<not> is_linebreak ch" by code_simp
  have g: "getsource (ex_ct ''Foo'') = text_of ?ls" by (simp add: ex_ct_def ex_Foo_def)
  have i: "0 < length (code (self ?st))" by simp
  have m: "matches_prop {''a''} ''a: int''" by code_simp
  have r: "re_search_word_colon ''a: int'' = Some ''a:''" by code_simp
  have f: "component_get_fields (ex_ct (component (self ?st))) (strip_chars '':'' ''a:'') =
      Some ex_int" by code_simp
  have c: "startswith (strip (last (code (self ?st)))) ''#''" by code_simp
  have e: "get_comment (comments ?st) = []" by code_simp
  have n: "strip_chars '':'' ''a:'' = ''a''" by code_simp
  from stored_code_and_line_above [where ct = ex_ct and c = "''Foo''" and ls = ?ls] l g
  have "code (Source_init ex_ct ''Foo'') = filter (\<lambda>line. line \<noteq> []) ?ls" by blast
  moreover from stored_code_and_line_above [where i = 0 and st = ?st and props = "{''a''}"
      and line = "''a: int''" and m = "''a:''" and ct = ex_ct] i m r
  have "loop_body ex_ct {''a''} 0 ''a: int'' ?st =
        (let line_above = (if (0::nat) = 0 then last (code (self ?st)) else code (self ?st) ! (0 - 1))
         in if startswith (strip line_above) ''#''
            then (case component_get_fields (ex_ct (component (self ?st))) (strip_chars '':'' ''a:'') of
                    None \<Rightarrow> Raise (KeyError (strip_chars '':'' ''a:'')) (?st\<lparr>comments := []\<rparr>)
                  | Some t \<Rightarrow>
                      Continue (?st\<lparr>comments := [], out := out ?st @
                        [\<lparr>name = strip_chars '':'' ''a:'', prop_type = t,
                          description = get_comment (comments ?st)\<rparr>]\<rparr>))
            else Raise (AssertionError (''Expected comment, got '' @ strip line_above)) ?st)"
    by blast
  ultimately show ?thesis using c f e n by (simp add: Let_def)
qed

subsection \<open>The comment buffer\<close>

text \<open>
  Claim C3, amended. When the scan stands before a run of one or more comment lines that
  is directly followed by a matched prop line, and the comment buffer is empty there, the
  loop appends one record for the prop whose description is the concatenation, in order,
  of the lines of the run, each trimmed of whitespace and then of \<open>#\<close> at both ends.
\<close>

theorem comment_run_description:
  assumes "code (self st) = pre @ cs @ p # post"
    and "cs \<noteq> []" and "\<forall>c \<in> set cs. comment_line c"
    and "matches_prop props p" and "re_search_word_colon p = Some m"
    and "component_get_fields (ct (component (self st))) (strip_chars '':'' m) = Some t"
    and "comments st = []"
  shows "loop ct props (enumerate (length pre) (cs @ p # post)) st =
         loop ct props (enumerate (length pre + length cs + 1) post)
           (st\<lparr>out := out st @
              [\<lparr>name = strip_chars '':'' m, prop_type = t,
                description = concat (map (\<lambda>c. strip_chars ''#'' (strip c)) cs)\<rparr>]\<rparr>)"
proof -
  have "st\<lparr>comments := [], out := out st @
              [\<lparr>name = strip_chars '':'' m, prop_type = t,
                description = get_comment (comments st @ cs)\<rparr>]\<rparr> =
        st\<lparr>out := out st @
              [\<lparr>name = strip_chars '':'' m, prop_type = t,
                description = concat (map (\<lambda>c. strip_chars ''#'' (strip c)) cs)\<rparr>]\<rparr>"
    using assms(7) by (simp add: get_comment_def)
  moreover have "loop ct props (enumerate (length pre) (cs @ p # post)) st =
         loop ct props (enumerate (length pre + length cs + 1) post)
           (st\<lparr>comments := [], out := out st @
              [\<lparr>name = strip_chars '':'' m, prop_type = t,
                description = get_comment (comments st @ cs)\<rparr>]\<rparr>)"
    using assms(1-6) by (rule loop_comments_then_prop)
  ultimately show ?thesis by simp
qed

theorem comment_run_description_witness:
  "loop ex_ct {''a''} (enumerate 0 [''# one'', ''# two'', ''a: int''])
     \<lparr>self = \<lparr>component = ''Foo'', code = [''# one'', ''# two'', ''a: int'']\<rparr>,
      out = [], comments = []\<rparr> =
   (None, \<lparr>self = \<lparr>component = ''Foo'', code = [''# one'', ''# two'', ''a: int'']\<rparr>,
      out = [\<lparr>name = ''a'', prop_type = ex_int, description = '' one two''\<rparr>],
      comments = []\<rparr>)"
proof -
  let ?st = "\<lparr>self = \<lparr>component = ''Foo'', code = [''# one'', ''# two'', ''a: int'']\<rparr>,
      out = [], comments = []\<rparr>"
  let ?cs = "[''# one'', ''# two'']"
  have h1: "code (self ?st) = [] @ ?cs @ ''a: int'' # []" by simp
  have h2: "?cs \<noteq> []" by simp
  have h3: "\<forall>c \<in> set ?cs. comment_line c" by code_simp
  have h4: "matches_prop {''a''} ''a: int''" by code_simp
  have h5: "re_search_word_colon ''a: int'' = Some ''a:''" by code_simp
  have h6: "component_get_fields (ex_ct (component (self ?st))) (strip_chars '':'' ''a:'') =
      Some ex_int" by code_simp
  have h7: "comments ?st = []" by simp
  have n: "strip_chars '':'' ''a:'' = ''a''" by code_simp
  have d: "concat (map (\<lambda>c. strip_chars ''#'' (strip c)) ?cs) = '' one two''" by code_simp
  from comment_run_description [where st = ?st and pre = "[]" and cs = ?cs and p = "''a: int''"
      and post = "[]" and props = "{''a''}" and m = "''a:''" and t = ex_int and ct = ex_ct,
      OF h1 h2 h3 h4 h5 h6 h7] n d
  show ?thesis by simp
qed

text \<open>
  The statement of C3 without the condition on the buffer fails: in class \<open>Bar\<close> the two
  comment lines above \<open>size\<close> give \<open>The size, in pixels.\<close>, and the record also carries
  the comment above the skipped line \<open>tag = 1\<close>.
\<close>

theorem comment_run_counterexample:
  "fst (private_get_props ex_ct (Source_init ex_ct ''Bar'')) =
     Inr [\<lparr>name = ''size'', prop_type = ex_var_int,
           description = '' The tag. The size, in pixels.''\<rparr>] \<and>
   take 6 (code (Source_init ex_ct ''Bar'')) =
     [''class Bar(Foo):'', ''    # The tag.'', ''    tag = 1'', ''    # The size,'',
      ''    # in pixels.'', ''    size: Var[int]''] \<and>
   get_comment [''    # The size,'', ''    # in pixels.''] = '' The size, in pixels.'' \<and>
   '' The tag. The size, in pixels.'' \<noteq> '' The size, in pixels.''"
  by code_simp

text \<open>
  Claim C9. A line that is skipped leaves the loop state, and with it the comment buffer,
  as it is. So for comment lines, a skipped line, more comment lines and then a matched
  prop line, the record of the prop has the description made of the buffer before, the
  comments above the skipped line and the comments above the prop line, in this order,
  and the buffer is empty afterwards.
\<close>

theorem skipped_line_keeps_comments:
  assumes "code (self st) = pre @ cs1 @ s # cs2 @ p # post"
    and "\<forall>c \<in> set cs1. comment_line c" and "skipped_line props s"
    and "cs2 \<noteq> []" and "\<forall>c \<in> set cs2. comment_line c"
    and "matches_prop props p" and "re_search_word_colon p = Some m"
    and "component_get_fields (ct (component (self st))) (strip_chars '':'' m) = Some t"
  shows "loop_body ct props i s st' = Continue st' \<and>
         loop ct props (enumerate (length pre) (cs1 @ s # cs2 @ p # post)) st =
         loop ct props (enumerate (length pre + length cs1 + 1 + length cs2 + 1) post)
           (st\<lparr>comments := [], out := out st @
              [\<lparr>name = strip_chars '':'' m, prop_type = t,
                description = get_comment (comments st) @ get_comment cs1 @ get_comment cs2\<rparr>]\<rparr>)"
proof
  show "loop_body ct props i s st' = Continue st'"
    using assms(3) by (rule loop_body_skipped)
next
  let ?st1 = "st\<lparr>comments := comments st @ cs1\<rparr>"
  let ?pre = "pre @ cs1 @ [s]"
  have "loop ct props (enumerate (length pre) (cs1 @ s # cs2 @ p # post)) st =
        loop ct props ((length pre + length cs1, s) #
          enumerate (Suc (length pre + length cs1)) (cs2 @ p # post)) ?st1"
    using loop_comment_lines [OF assms(2), of ct props "length pre"
        "(length pre + length cs1, s) #
          enumerate (Suc (length pre + length cs1)) (cs2 @ p # post)" st]
    by (simp add: enumerate_append_eq)
  also have "\<dots> = loop ct props (enumerate (length ?pre) (cs2 @ p # post)) ?st1"
    by (simp add: loop_body_skipped [OF assms(3)])
  also have "\<dots> = loop ct props (enumerate (length ?pre + length cs2 + 1) post)
           (?st1\<lparr>comments := [], out := out ?st1 @
              [\<lparr>name = strip_chars '':'' m, prop_type = t,
                description = get_comment (comments ?st1 @ cs2)\<rparr>]\<rparr>)"
    by (rule loop_comments_then_prop) (use assms in simp_all)
  finally show "loop ct props (enumerate (length pre) (cs1 @ s # cs2 @ p # post)) st =
         loop ct props (enumerate (length pre + length cs1 + 1 + length cs2 + 1) post)
           (st\<lparr>comments := [], out := out st @
              [\<lparr>name = strip_chars '':'' m, prop_type = t,
                description = get_comment (comments st) @ get_comment cs1 @ get_comment cs2\<rparr>]\<rparr>)"
    by (simp add: get_comment_def)
qed

theorem skipped_line_keeps_comments_witness:
  "loop_body ex_ct {''a'', ''size''} 2 ''    tag = 1''
     \<lparr>self = Source_init ex_ct ''Bar'', out = [], comments = [''    # The tag.'']\<rparr> =
   Continue \<lparr>self = Source_init ex_ct ''Bar'', out = [], comments = [''    # The tag.'']\<rparr> \<and>
   loop ex_ct {''a'', ''size''} (enumerate 1
       [''    # The tag.'', ''    tag = 1'', ''    # The size,'', ''    # in pixels.'',
        ''    size: Var[int]'', ''    def render(self):'', ''        # inner'',
        ''        a: int = 0''])
     \<lparr>self = Source_init ex_ct ''Bar'', out = [], comments = []\<rparr> =
   (None, \<lparr>self = Source_init ex_ct ''Bar'',
      out = [\<lparr>name = ''size'', prop_type = ex_var_int,
              description = '' The tag. The size, in pixels.''\<rparr>],
      comments = []\<rparr>)"
proof -
  let ?props = "{''a'', ''size''}"
  let ?st = "\<lparr>self = Source_init ex_ct ''Bar'', out = [], comments = []\<rparr>"
  let ?st' = "\<lparr>self = Source_init ex_ct ''Bar'', out = [], comments = [''    # The tag.'']\<rparr>"
  let ?pre = "[''class Bar(Foo):'']"
  let ?cs1 = "[''    # The tag.'']"
  let ?s = "''    tag = 1''"
  let ?cs2 = "[''    # The size,'', ''    # in pixels.'']"
  let ?p = "''    size: Var[int]''"
  let ?post = "[''    def render(self):'', ''        # inner'', ''        a: int = 0'']"
  have h1: "code (self ?st) = ?pre @ ?cs1 @ ?s # ?cs2 @ ?p # ?post" by code_simp
  have h2: "\<forall>c \<in> set ?cs1. comment_line c" by code_simp
  have h3: "skipped_line ?props ?s" by code_simp
  have h4: "?cs2 \<noteq> []" by simp
  have h5: "\<forall>c \<in> set ?cs2. comment_line c" by code_simp
  have h6: "matches_prop ?props ?p" by code_simp
  have h7: "re_search_word_colon ?p = Some ''size:''" by code_simp
  have h8: "component_get_fields (ex_ct (component (self ?st))) (strip_chars '':'' ''size:'') =
      Some ex_var_int" by code_simp
  have n: "strip_chars '':'' ''size:'' = ''size''" by code_simp
  have d: "get_comment (comments ?st) @ get_comment ?cs1 @ get_comment ?cs2 =
      '' The tag. The size, in pixels.''" by code_simp
  have r: "loop ex_ct ?props (enumerate (length ?pre + length ?cs1 + 1 + length ?cs2 + 1) ?post)
      (?st\<lparr>comments := [], out := out ?st @
              [\<lparr>name = ''size'', prop_type = ex_var_int,
                description = '' The tag. The size, in pixels.''\<rparr>]\<rparr>) =
    (None, ?st\<lparr>comments := [], out := out ?st @
              [\<lparr>name = ''size'', prop_type = ex_var_int,
                description = '' The tag. The size, in pixels.''\<rparr>]\<rparr>)"
    by code_simp
  from skipped_line_keeps_comments [where st = ?st and pre = ?pre and ?cs1.0 = ?cs1 and s = ?s
      and ?cs2.0 = ?cs2 and p = ?p and post = ?post and props = ?props and m = "''size:''"
      and t = ex_var_int and ct = ex_ct and i = 2 and st' = ?st',
      OF h1 h2 h3 h4 h5 h6 h7 h8] n d r
  show ?thesis by simp
qed

subsection \<open>One documented field\<close>




end
